theory Spec2Isabelle
  imports Complex_Main "HOL-Library.Sublist"
begin

section \<open>Python values used by the notebook\<close>

text \<open>
  The notebook works on Python lists of unbounded integers (\<open>int list\<close>), on Python
  strings (\<open>string\<close>) and on the numbers of an arbitrary-precision library. The only
  exception the code can raise is the library's division by zero.
\<close>

datatype py_error = ZeroDivisionError

text \<open>
  The running value \<open>curr\<close> of the evaluator starts as the Python integer \<open>0\<close> and
  is a library number after the first division. Every library number is a rational.
\<close>

datatype py_num = PyInt int | Mpf rat

fun val_of :: "py_num \<Rightarrow> rat" where
  "val_of (PyInt i) = of_int i"
| "val_of (Mpf x) = x"

subsection \<open>The builtin \<open>str\<close> on integers\<close>

text \<open>
  \<open>str_digits n\<close> is the decimal digit string of an integer \<open>n \<ge> 0\<close>, without leading
  zeros; \<open>str_int\<close> is Python's \<open>str\<close> on any integer.
\<close>

definition digit_char :: "int \<Rightarrow> char" where
  "digit_char n = ''0123456789'' ! nat n"

function str_digits :: "int \<Rightarrow> string" where
  "str_digits n =
     (if n < 10 then [digit_char n] else str_digits (n div 10) @ [digit_char (n mod 10)])"
  by pat_completeness auto
termination
  by (relation "measure nat") auto

declare str_digits.simps [simp del]

definition str_int :: "int \<Rightarrow> string" where
  "str_int i = (if i < 0 then CHR ''-'' # str_digits (- i) else str_digits i)"

section \<open>Digit Counter: \<open>count_digits\<close>\<close>

text \<open>
  \<^verbatim>\<open>
  def count_digits(cf_list):
      total = 0
      for num in cf_list:
          while num > 0: # note: numbers are guaranteed to be positive
              num = num // 10
              total = total + 1
      return total
  \<close>
  The inner \<open>while\<close> loop is \<open>count_loop\<close> (the counter \<open>total\<close> is written
  \<open>tot\<close>); Python's \<open>//\<close> on integers is \<open>div\<close>.
  The function has no \<open>raise\<close>: an element that is not positive skips the loop.
\<close>

function count_loop :: "int \<Rightarrow> nat \<Rightarrow> nat" where
  "count_loop num tot = (if num > 0 then count_loop (num div 10) (tot + 1) else tot)"
  by pat_completeness auto
termination
  by (relation "measure (\<lambda>(num, tot). nat num)") auto

declare count_loop.simps [simp del]

definition count_digits :: "int list \<Rightarrow> nat" where
  "count_digits cf_list = fold count_loop cf_list 0"

section \<open>Trott-Target Formatter: \<open>cf_to_trott_approx\<close>\<close>

text \<open>
  \<^verbatim>\<open>
  def cf_to_trott_approx(cf_list):
      return "0.{}".format("".join(map(str,cf_list)))
  \<close>
\<close>

definition cf_to_trott_approx :: "int list \<Rightarrow> string" where
  "cf_to_trott_approx cf_list = ''0.'' @ concat (map str_int cf_list)"

section \<open>The arbitrary-precision arithmetic provider\<close>

text \<open>
  The notebook imports \<open>mp\<close> and \<open>mpf\<close> from the library mpmath, which is not part of
  the repository. The code uses four things of it: the ambient working precision
  \<open>mp.dps\<close> (decimal digits) that \<open>with mp.extradps(n)\<close> raises by \<open>n\<close> for the
  block and restores afterwards; the conversion \<open>mpf(x)\<close>; the operators \<open>+\<close> and
  \<open>/\<close> on library numbers, each rounding its exact result to the working precision;
  and \<open>str\<close> of a library number, which renders it with \<open>mp.dps\<close> digits.
  The library is a parameter of the model: \<open>mp_round dps x\<close> is the library number that an
  operation with exact result \<open>x\<close> returns under working precision \<open>dps\<close>, and
  \<open>mp_str dps x\<close> is \<open>str(x)\<close> under working precision \<open>dps\<close>.
\<close>

record provider =
  mp_round :: "nat \<Rightarrow> rat \<Rightarrow> rat"
  mp_str :: "nat \<Rightarrow> rat \<Rightarrow> string"

text \<open>\<open>with mp.extradps(n)\<close>: the working precision inside the block.\<close>

definition extradps :: "nat \<Rightarrow> nat \<Rightarrow> nat" where
  "extradps n dps = dps + n"

text \<open>\<open>item + curr\<close>: exact on two Python integers, rounded when \<open>curr\<close> is a library number.\<close>

fun py_add :: "provider \<Rightarrow> nat \<Rightarrow> int \<Rightarrow> py_num \<Rightarrow> py_num" where
  "py_add mp dps item (PyInt c) = PyInt (item + c)"
| "py_add mp dps item (Mpf c) = Mpf (mp_round mp dps (of_int item + c))"

text \<open>\<open>mpf(x)\<close>: the argument rounded to the working precision.\<close>

definition mpf :: "provider \<Rightarrow> nat \<Rightarrow> py_num \<Rightarrow> rat" where
  "mpf mp dps x = mp_round mp dps (val_of x)"

text \<open>\<open>1 / x\<close> for a library number \<open>x\<close>: the library raises on a zero divisor.\<close>

definition one_over :: "provider \<Rightarrow> nat \<Rightarrow> rat \<Rightarrow> py_error + py_num" where
  "one_over mp dps x = (if x = 0 then Inl ZeroDivisionError else Inr (Mpf (mp_round mp dps (1 / x))))"

text \<open>Python's \<open>str\<close> on the evaluator's result.\<close>

fun py_str :: "provider \<Rightarrow> nat \<Rightarrow> py_num \<Rightarrow> string" where
  "py_str mp dps (PyInt i) = str_int i"
| "py_str mp dps (Mpf x) = mp_str mp dps x"

section \<open>Precision-Scaled CF Evaluator: \<open>cf_to_real\<close>\<close>

text \<open>
  \<^verbatim>\<open>
  def cf_to_real(cf_list, precision):
      with mp.extradps(precision+1):
          curr = 0 # 0 is previous term
          for item in cf_list[::-1]: # loop through list backwards
              curr = 1 / mpf(item + curr)
          return curr
  \<close>
  \<open>cf_loop\<close> is the \<open>for\<close> loop over the reversed list (the variable \<open>curr\<close> is
  written \<open>cur\<close>); \<open>dps\<close> is the ambient working precision at the call.
\<close>

fun cf_loop :: "provider \<Rightarrow> nat \<Rightarrow> int list \<Rightarrow> py_num \<Rightarrow> py_error + py_num" where
  "cf_loop mp dps [] cur = Inr cur"
| "cf_loop mp dps (item # items) cur =
     (case one_over mp dps (mpf mp dps (py_add mp dps item cur)) of
        Inl e \<Rightarrow> Inl e
      | Inr cur' \<Rightarrow> cf_loop mp dps items cur')"

definition cf_to_real :: "provider \<Rightarrow> nat \<Rightarrow> int list \<Rightarrow> nat \<Rightarrow> py_error + py_num" where
  "cf_to_real mp dps cf_list precision =
     cf_loop mp (extradps (precision + 1) dps) (rev cf_list) (PyInt 0)"

text \<open>
  The same loop, recording what it divides by: for every iteration the value of \<open>curr\<close>
  before the iteration and the divisor \<open>mpf(item + curr)\<close> handed to \<open>1 / ...\<close>. The
  record stops where the loop stops.
\<close>

fun cf_trace :: "provider \<Rightarrow> nat \<Rightarrow> int list \<Rightarrow> py_num \<Rightarrow> (rat \<times> rat) list" where
  "cf_trace mp dps [] cur = []"
| "cf_trace mp dps (item # items) cur =
     (let den = mpf mp dps (py_add mp dps item cur)
      in (val_of cur, den) #
         (case one_over mp dps den of
            Inl e \<Rightarrow> []
          | Inr cur' \<Rightarrow> cf_trace mp dps items cur'))"

section \<open>Validity Predicate: \<open>valid_trott\<close>\<close>

text \<open>
  \<^verbatim>\<open>
  def valid_trott(cf_list):
      precision = count_digits(cf_list) + 2
      with mp.extradps(precision+1):
          real = str(cf_to_real(cf_list, precision))[:precision]
          want = cf_to_trott_approx(cf_list)
          return real == want
  \<close>
  The evaluator is called inside the block, so its own \<open>extradps\<close> adds to the
  precision the block has already raised; \<open>str\<close> runs under the block's precision.
  The variable \<open>real\<close> is written \<open>real_str\<close>.
\<close>

definition valid_trott :: "provider \<Rightarrow> nat \<Rightarrow> int list \<Rightarrow> py_error + bool" where
  "valid_trott mp dps cf_list =
     (let precision = count_digits cf_list + 2;
          dps' = extradps (precision + 1) dps
      in case cf_to_real mp dps' cf_list precision of
           Inl e \<Rightarrow> Inl e
         | Inr v \<Rightarrow>
             (let real_str = take precision (py_str mp dps' v);
                  want = cf_to_trott_approx cf_list
              in Inr (real_str = want)))"

section \<open>Backtracking Search Engine: \<open>trott_backtracking\<close>\<close>

text \<open>
  \<^verbatim>\<open>
  def trott_backtracking(current_cf, count, max_items, max_size, file=None):
      if count < max_items:
          valid = []
          for a in range(1, max_size):
              new_cf = current_cf + [a]
              if valid_trott(new_cf):
                  valid.append(new_cf)
          if valid:
              for v in valid:
                  # These branches are still alive
                  print("VALID: {}".format(str(v)), file=file)
                  trott_backtracking(v, count+1, max_items, max_size, file=file)
  \<close>
  \<open>collect_valid\<close> is the first \<open>for\<close> loop, over \<open>range(1, max_size)\<close>, which is the
  list \<open>[1..max_size - 1]\<close>. \<open>for_valid\<close> is the second loop; the guard \<open>if valid:\<close>
  around it changes nothing, a loop over the empty list does nothing. The function returns
  nothing; its effect is the sequence of lines printed to \<open>file\<close>. The model returns the
  sequences printed, in order, and the exception that ended the call, if any: what was
  printed before an exception stays printed. \<open>dps\<close> is the ambient working precision at
  the call, which every \<open>with\<close> block of the predicate restores on leaving.
\<close>

fun collect_valid ::
  "provider \<Rightarrow> nat \<Rightarrow> int list \<Rightarrow> int list \<Rightarrow> int list list \<Rightarrow> py_error + int list list" where
  "collect_valid mp dps current_cf [] valid = Inr valid"
| "collect_valid mp dps current_cf (a # as) valid =
     (let new_cf = current_cf @ [a]
      in case valid_trott mp dps new_cf of
           Inl e \<Rightarrow> Inl e
         | Inr ok \<Rightarrow> collect_valid mp dps current_cf as (if ok then valid @ [new_cf] else valid))"

function trott_backtracking ::
    "provider \<Rightarrow> nat \<Rightarrow> int list \<Rightarrow> int \<Rightarrow> int \<Rightarrow> int \<Rightarrow> int list list \<times> py_error option"
  and for_valid ::
    "provider \<Rightarrow> nat \<Rightarrow> int list list \<Rightarrow> int \<Rightarrow> int \<Rightarrow> int \<Rightarrow> int list list \<times> py_error option"
  where
  "trott_backtracking mp dps current_cf count max_items max_size =
     (if count < max_items then
        (case collect_valid mp dps current_cf [1..max_size - 1] [] of
           Inl e \<Rightarrow> ([], Some e)
         | Inr valid \<Rightarrow> for_valid mp dps valid count max_items max_size)
      else ([], None))"
| "for_valid mp dps [] count max_items max_size = ([], None)"
| "for_valid mp dps (v # vs) count max_items max_size =
     (case trott_backtracking mp dps v (count + 1) max_items max_size of
        (printed, Some e) \<Rightarrow> (v # printed, Some e)
      | (printed, None) \<Rightarrow>
          (case for_valid mp dps vs count max_items max_size of
             (printed', r) \<Rightarrow> (v # printed @ printed', r)))"
  by pat_completeness auto

text \<open>
  Every call chain is finite: a call of the search at \<open>count\<close> reaches the second loop
  only when \<open>count < max_items\<close>, the loop calls the search at \<open>count + 1\<close> with the same
  \<open>max_items\<close>, and the loop itself walks down a finite list.
\<close>

definition call_measure ::
  "provider \<times> nat \<times> int list \<times> int \<times> int \<times> int +
   provider \<times> nat \<times> int list list \<times> int \<times> int \<times> int \<Rightarrow> nat" where
  "call_measure x =
     (case x of
        Inl (mp, dps, current_cf, count, max_items, max_size) \<Rightarrow> 2 * nat (max_items - count) + 1
      | Inr (mp, dps, valid, count, max_items, max_size) \<Rightarrow> 2 * nat (max_items - count - 1) + 2)"

definition loop_measure ::
  "provider \<times> nat \<times> int list \<times> int \<times> int \<times> int +
   provider \<times> nat \<times> int list list \<times> int \<times> int \<times> int \<Rightarrow> nat" where
  "loop_measure x =
     (case x of
        Inl (mp, dps, current_cf, count, max_items, max_size) \<Rightarrow> 0
      | Inr (mp, dps, valid, count, max_items, max_size) \<Rightarrow> length valid)"

lemma search_calls_wellfounded: "All trott_backtracking_for_valid_dom"
  by (relation "measures [call_measure, loop_measure]")
     (auto simp: call_measure_def loop_measure_def)

termination trott_backtracking
  by (rule search_calls_wellfounded)

declare trott_backtracking.simps [simp del]

section \<open>Notions of the specification\<close>

text \<open>
  The value of the continued fraction \<open>1/(a1 + 1/(a2 + ... + 1/an))\<close>, as the
  specification writes it; the empty fraction is 0.
\<close>

fun cf_value :: "int list \<Rightarrow> rat" where
  "cf_value [] = 0"
| "cf_value (a # as) = 1 / (of_int a + cf_value as)"

text \<open>
  What the evaluator needs of the library's rounding to stay away from a zero divisor:
  a result of at least 1 is not rounded below 1, and a result in \<open>(0, 1]\<close> stays there.
  Rounding to the nearest representable number does both, since 1 is representable, and
  so does exact arithmetic.
\<close>

definition keeps_bounds :: "provider \<Rightarrow> bool" where
  "keeps_bounds mp \<longleftrightarrow>
     (\<forall>d x. (1 \<le> x \<longrightarrow> 1 \<le> mp_round mp d x) \<and>
            (0 < x \<and> x \<le> 1 \<longrightarrow> 0 < mp_round mp d x \<and> mp_round mp d x \<le> 1))"

text \<open>
  What is to be shown of a sequence \<open>s\<close> that a call of the search at node \<open>cf\<close> and depth
  \<open>c\<close> reports: it extends \<open>cf\<close> by at least one and at most \<open>m - c\<close> terms, each of them
  in \<open>1 .. sz - 1\<close>, and it passes the predicate.
\<close>

definition extends_ok ::
  "provider \<Rightarrow> nat \<Rightarrow> int list \<Rightarrow> int \<Rightarrow> int \<Rightarrow> int \<Rightarrow> int list \<Rightarrow> bool" where
  "extends_ok mp dps cf c m sz s \<longleftrightarrow>
     (\<exists>ext. s = cf @ ext \<and> ext \<noteq> [] \<and> int (length ext) \<le> m - c \<and>
            (\<forall>t\<in>set ext. 1 \<le> t \<and> t \<le> sz - 1) \<and> valid_trott mp dps s = Inr True)"

text \<open>
  The order of the reports below a node \<open>cf\<close>: every sequence strictly between \<open>cf\<close> and a
  reported sequence has been seen before that report.
\<close>

fun reported_earlier :: "int list \<Rightarrow> int list set \<Rightarrow> int list list \<Rightarrow> bool" where
  "reported_earlier cf seen [] = True"
| "reported_earlier cf seen (s # rest) =
     ((\<forall>p. strict_prefix cf p \<and> strict_prefix p s \<longrightarrow> p \<in> seen) \<and>
      reported_earlier cf (insert s seen) rest)"

section \<open>A reference provider\<close>

text \<open>
  Modelled from the spec: the arbitrary-precision arithmetic library (mpmath) that the
  notebook imports is missing from the repository. The spec (External Interfaces) asks of
  the provider a working precision in decimal significant digits, addition and division at
  that precision, and the rendering of a value as a decimal string with that many
  significant digits, and it accepts any conforming decimal or rational arithmetic.
  The reference provider computes with exact rationals, so no operation loses precision,
  and renders a value in positional notation with \<open>dps\<close> significant digits, the last one
  rounded half up, with trailing zeros removed down to one digit after the point
  (\<open>1/3\<close> at 5 digits is \<open>0.33333\<close>, \<open>1\<close> is \<open>1.0\<close>, \<open>-1\<close> is \<open>-1.0\<close>, \<open>0\<close> is \<open>0.0\<close>).
  \<open>default_dps\<close> is the working precision in force when the notebook starts.
\<close>

definition default_dps :: nat where
  "default_dps = 15"

function lead_shift :: "int \<Rightarrow> int \<Rightarrow> int" where
  "lead_shift p q = (if p \<le> 0 \<or> q \<le> p then 0 else 1 + lead_shift (10 * p) q)"
  by pat_completeness auto
termination
  by (relation "measure (\<lambda>(p, q). nat (q - p))") auto

declare lead_shift.simps [simp del]

text \<open>The decimal exponent of a positive rational \<open>a\<close>: \<open>10 ^ e \<le> a < 10 ^ (e + 1)\<close>.\<close>

definition dec_exponent :: "rat \<Rightarrow> int" where
  "dec_exponent a =
     (case quotient_of a of (p, q) \<Rightarrow>
        if q \<le> p then int (length (str_digits (p div q))) - 1
        else - lead_shift p q)"

text \<open>
  The digits of a positive rational come from long division, most significant first.
  \<open>scaled_fraction a e\<close> is \<open>a / 10 ^ (e + 1)\<close> as a numerator and a denominator, a number in
  \<open>[1/10, 1)\<close> when \<open>e\<close> is the decimal exponent of \<open>a\<close>; \<open>long_div_digits n r q\<close> are the
  first \<open>n\<close> decimals of \<open>r / q\<close> for \<open>0 \<le> r < q\<close>.
\<close>

definition scaled_fraction :: "rat \<Rightarrow> int \<Rightarrow> int \<times> int" where
  "scaled_fraction a e =
     (case quotient_of a of (p, q) \<Rightarrow>
        if 0 \<le> e + 1 then (p, q * 10 ^ nat (e + 1)) else (p * 10 ^ nat (- (e + 1)), q))"

fun long_div_digits :: "nat \<Rightarrow> int \<Rightarrow> int \<Rightarrow> int list" where
  "long_div_digits 0 r q = []"
| "long_div_digits (Suc n) r q = (10 * r) div q # long_div_digits n ((10 * r) mod q) q"

text \<open>Adding one to the last digit of a digit list; the flag is the carry out of the first.\<close>

fun incr_digits :: "int list \<Rightarrow> int list \<times> bool" where
  "incr_digits [] = ([], True)"
| "incr_digits (d # ds) =
     (case incr_digits ds of
        (ds', carry) \<Rightarrow>
          if carry then (if d = 9 then (0 # ds', True) else ((d + 1) # ds', False))
          else (d # ds', False))"

text \<open>
  The \<open>D\<close> significant digits of a positive rational and its decimal exponent: \<open>D + 1\<close>
  digits are computed, and a last digit of 5 or more rounds the \<open>D\<close> digits before it up.
\<close>

definition sig_digits :: "nat \<Rightarrow> rat \<Rightarrow> int list \<times> int" where
  "sig_digits D a =
     (let ex = dec_exponent a
      in case scaled_fraction a ex of (p, q) \<Rightarrow>
        (let ds = long_div_digits (D + 1) p q
         in if 5 \<le> last ds then
              (case incr_digits (take D ds) of
                 (ds', carry) \<Rightarrow>
                   if carry then (1 # replicate (D - 1) 0, ex + 1) else (ds', ex))
            else (take D ds, ex)))"

definition strip_zeros :: "string \<Rightarrow> string" where
  "strip_zeros s =
     (let t = rev (dropWhile (\<lambda>c. c = CHR ''0'') (rev s))
      in if t \<noteq> [] \<and> last t = CHR ''.'' then t @ ''0'' else t)"

definition render_dec :: "nat \<Rightarrow> rat \<Rightarrow> string" where
  "render_dec D x =
     (if x = 0 then ''0.0''
      else case sig_digits D \<bar>x\<bar> of (digits, ex) \<Rightarrow>
        (let ds = map digit_char digits;
             body =
               (if ex < 0 then ''0.'' @ replicate (nat (- ex - 1)) (CHR ''0'') @ ds
                else (let ds' = ds @ replicate (nat (ex + 1) - length ds) (CHR ''0'')
                      in take (nat (ex + 1)) ds' @ ''.'' @ drop (nat (ex + 1)) ds'))
         in (if x < 0 then ''-'' else []) @ strip_zeros body))"

definition exact_provider :: provider where
  "exact_provider = \<lparr> mp_round = (\<lambda>dps x. x), mp_str = render_dec \<rparr>"

section \<open>The full decimal expansion\<close>

text \<open>
  The decimal expansion of a rational \<open>x \<ge> 0\<close>, as the specification speaks of it:
  the integer part, the point, and the first \<open>n\<close> decimals of \<open>x\<close> by long division,
  cut off there, neither rounded nor shortened. A string is a prefix of the full expansion
  when it is a prefix of the expansion with enough decimals.
\<close>

fun frac_digits :: "nat \<Rightarrow> int \<Rightarrow> int \<Rightarrow> string" where
  "frac_digits 0 r q = []"
| "frac_digits (Suc n) r q = digit_char ((10 * r) div q) # frac_digits n ((10 * r) mod q) q"

definition decimal_expansion :: "nat \<Rightarrow> rat \<Rightarrow> string" where
  "decimal_expansion n x =
     (case quotient_of x of (p, q) \<Rightarrow> str_int (p div q) @ ''.'' @ frac_digits n (p mod q) q)"

section \<open>Properties of the Digit Counter\<close>

lemma length_str_digits_pos: "0 < length (str_digits n)"
  by (subst str_digits.simps) simp

lemma count_loop_nonpos: "num \<le> 0 \<Longrightarrow> count_loop num tot = tot"
  by (subst count_loop.simps) simp

lemma count_loop_length:
  "0 < num \<Longrightarrow> count_loop num tot = tot + length (str_digits num)"
proof (induction num tot rule: count_loop.induct)
  case (1 num tot)
  show ?case
  proof (cases "num < 10")
    case True
    with "1.prems" have "num div 10 = 0" by simp
    then have "count_loop num tot = tot + 1"
      using "1.prems" by (subst count_loop.simps) (simp add: count_loop_nonpos)
    moreover have "length (str_digits num) = 1"
      using True by (subst str_digits.simps) simp
    ultimately show ?thesis by simp
  next
    case False
    then have pos: "0 < num div 10" by simp
    have "count_loop num tot = count_loop (num div 10) (tot + 1)"
      using "1.prems" by (subst count_loop.simps) simp
    also have "\<dots> = (tot + 1) + length (str_digits (num div 10))"
      using "1.IH" "1.prems" pos by simp
    also have "\<dots> = tot + length (str_digits num)"
      using False by (subst (2) str_digits.simps) simp
    finally show ?thesis .
  qed
qed

lemma count_loop_str_int:
  "0 < num \<Longrightarrow> count_loop num tot = tot + length (str_int num)"
  by (simp add: count_loop_length str_int_def)

lemma fold_count_loop_pos:
  "\<forall>t\<in>set S. 0 < t \<Longrightarrow>
   fold count_loop S tot = tot + sum_list (map (\<lambda>t. length (str_int t)) S)"
  by (induction S arbitrary: tot) (simp_all add: count_loop_str_int)

lemma count_digits_pos:
  "\<forall>t\<in>set S. 0 < t \<Longrightarrow> count_digits S = sum_list (map (\<lambda>t. length (str_int t)) S)"
  by (simp add: count_digits_def fold_count_loop_pos)

lemma fold_count_loop_general:
  "fold count_loop S tot = tot + sum_list (map (\<lambda>t. if 0 < t then length (str_int t) else 0) S)"
  by (induction S arbitrary: tot) (simp_all add: count_loop_str_int count_loop_nonpos)

lemma count_digits_general:
  "count_digits S = sum_list (map (\<lambda>t. if 0 < t then length (str_int t) else 0) S)"
  by (simp add: count_digits_def fold_count_loop_general)

lemma length_str_int_pos: "0 < length (str_int t)"
  using length_str_digits_pos by (simp add: str_int_def del: length_greater_0_conv)

lemma length_target:
  "length (cf_to_trott_approx S) = 2 + sum_list (map (\<lambda>t. length (str_int t)) S)"
  by (simp add: cf_to_trott_approx_def length_concat comp_def)

lemma count_digits_le:
  "count_digits S \<le> sum_list (map (\<lambda>t. length (str_int t)) S)"
  unfolding count_digits_general by (rule sum_list_mono) simp

lemma count_digits_less:
  assumes "\<exists>t\<in>set S. t \<le> 0"
  shows "count_digits S < sum_list (map (\<lambda>t. length (str_int t)) S)"
  using assms
proof (induction S)
  case Nil
  then show ?case by simp
next
  case (Cons a S)
  show ?case
  proof (cases "a \<le> 0")
    case True
    have "count_digits (a # S) = count_digits S"
      using True by (simp add: count_digits_general)
    moreover have "count_digits S \<le> sum_list (map (\<lambda>t. length (str_int t)) S)"
      by (rule count_digits_le)
    moreover have "0 < length (str_int a)" by (rule length_str_int_pos)
    ultimately show ?thesis by (simp del: length_greater_0_conv)
  next
    case False
    with Cons.prems have "\<exists>t\<in>set S. t \<le> 0" by auto
    from Cons.IH [OF this] False show ?thesis
      by (simp add: count_digits_general)
  qed
qed

text \<open>
  Claim C7. On a sequence of positive integers the Digit Counter returns the sum, over the
  terms, of the length of the term's canonical base-10 representation \<open>str(t)\<close>; on
  \<open>[100, 5, 7, 99]\<close> it returns 7.
\<close>

theorem count_digits_sum_of_lengths:
  "((\<forall>t\<in>set S. 0 < t) \<longrightarrow> count_digits S = sum_list (map (\<lambda>t. length (str_int t)) S))
   \<and> count_digits [100, 5, 7, 99] = 7"
proof -
  have "count_digits [100, 5, 7, 99] = 7" by code_simp
  then show ?thesis by (simp add: count_digits_pos)
qed

theorem count_digits_sum_of_lengths_witness:
  "count_digits [3, 29, 5, 7] = 5 \<and> sum_list (map (\<lambda>t. length (str_int t)) [3, 29, 5, 7]) = 5"
proof -
  have pos: "\<forall>t\<in>set [3, 29, 5, 7 :: int]. 0 < t" by simp
  have len: "sum_list (map (\<lambda>t. length (str_int t)) [3, 29, 5, 7]) = 5"
    by code_simp
  show ?thesis
    using count_digits_sum_of_lengths [of "[3, 29, 5, 7]"] pos len by simp
qed

section \<open>Properties of the CF Evaluator\<close>

lemma mpf_py_add_exact:
  "mp_round mp = (\<lambda>d x. x) \<Longrightarrow> mpf mp dps (py_add mp dps item cur) = of_int item + val_of cur"
  by (cases cur) (simp_all add: mpf_def)

lemma cf_loop_exact:
  assumes "mp_round mp = (\<lambda>d x. x)"
  shows "\<forall>t\<in>set items. 0 < t \<Longrightarrow> 0 \<le> val_of cur \<Longrightarrow>
    cf_loop mp dps items cur =
      Inr (if items = [] then cur
           else Mpf (fold (\<lambda>t c. 1 / (of_int t + c)) items (val_of cur)))"
proof (induction items arbitrary: cur)
  case Nil
  then show ?case by simp
next
  case (Cons item items)
  let ?den = "of_int item + val_of cur :: rat"
  have pos: "0 < ?den" using Cons.prems by simp
  have step: "one_over mp dps (mpf mp dps (py_add mp dps item cur)) = Inr (Mpf (1 / ?den))"
    using pos assms by (simp add: mpf_py_add_exact one_over_def)
  have "0 \<le> val_of (Mpf (1 / ?den))" using pos by simp
  with Cons.IH [of "Mpf (1 / ?den)"] Cons.prems
  have "cf_loop mp dps items (Mpf (1 / ?den)) =
      Inr (if items = [] then Mpf (1 / ?den)
           else Mpf (fold (\<lambda>t c. 1 / (of_int t + c)) items (1 / ?den)))"
    by simp
  with step show ?case by simp
qed

lemma cf_value_fold: "cf_value S = fold (\<lambda>t c. 1 / (of_int t + c)) (rev S) 0"
  by (induction S) simp_all

lemma exact_provider_round: "mp_round exact_provider = (\<lambda>d x. x)"
  by (simp add: exact_provider_def)

lemma cf_to_real_example:
  "cf_to_real exact_provider default_dps [3, 29, 5, 7] 7 = Inr (Mpf (1051 / 3189))"
  by code_simp

text \<open>
  Claim C3. The evaluator walks the terms in reverse order from \<open>curr = 0\<close> with the update
  \<open>curr = 1 / (t + curr)\<close>. When the library computes exactly (no rounding) and the
  terms are positive, the result is the value of the continued fraction
  \<open>1/(a1 + 1/(a2 + ... + 1/an))\<close>; on the empty sequence the result is the integer 0,
  whatever the library and the precision.
\<close>

theorem cf_to_real_exact_value:
  assumes "mp_round mp = (\<lambda>d x. x)" and "\<forall>t\<in>set S. 0 < t"
  shows "cf_to_real mp dps S P = Inr (if S = [] then PyInt 0 else Mpf (cf_value S))
    \<and> cf_value S = fold (\<lambda>t cur. 1 / (of_int t + cur)) (rev S) 0
    \<and> cf_to_real mp' dps' [] P' = Inr (PyInt 0)"
proof -
  have "cf_loop mp (extradps (P + 1) dps) (rev S) (PyInt 0) =
      Inr (if rev S = [] then PyInt 0
           else Mpf (fold (\<lambda>t c. 1 / (of_int t + c)) (rev S) (val_of (PyInt 0))))"
    using assms(2) by (intro cf_loop_exact [OF assms(1)]) simp_all
  then have "cf_to_real mp dps S P = Inr (if S = [] then PyInt 0 else Mpf (cf_value S))"
    by (simp add: cf_to_real_def cf_value_fold)
  moreover have "cf_to_real mp' dps' [] P' = Inr (PyInt 0)"
    by (simp add: cf_to_real_def)
  ultimately show ?thesis
    using cf_value_fold by simp
qed

theorem cf_to_real_exact_value_witness:
  "cf_to_real exact_provider default_dps [3, 29, 5, 7] 7 = Inr (Mpf (cf_value [3, 29, 5, 7]))
   \<and> cf_value [3, 29, 5, 7] = 1051 / 3189
   \<and> cf_to_real exact_provider default_dps [] 7 = Inr (PyInt 0)"
proof -
  have pos: "\<forall>t\<in>set [3, 29, 5, 7 :: int]. 0 < t" by simp
  have v: "cf_value [3, 29, 5, 7] = 1051 / 3189" by simp
  show ?thesis
    using cf_to_real_exact_value [OF exact_provider_round pos, of default_dps 7
        exact_provider default_dps 7] v
    by simp
qed

lemma denominator_ge_1:
  assumes "keeps_bounds mp" "1 \<le> item" "0 \<le> val_of cur"
  shows "1 \<le> mpf mp dps (py_add mp dps item cur)"
proof (cases cur)
  case (PyInt c)
  with assms(3) have "0 \<le> c" by simp
  with assms(2) have "(1::rat) \<le> of_int (item + c)" by linarith
  with assms(1) PyInt show ?thesis by (simp add: mpf_def keeps_bounds_def)
next
  case (Mpf c)
  with assms(2,3) have "1 \<le> of_int item + c" by simp
  with assms(1) have "1 \<le> mp_round mp dps (of_int item + c)"
    by (simp add: keeps_bounds_def)
  with assms(1) Mpf show ?thesis by (simp add: mpf_def keeps_bounds_def)
qed

lemma one_over_bounds:
  assumes "keeps_bounds mp" "1 \<le> den"
  shows "\<exists>r. one_over mp dps den = Inr (Mpf r) \<and> 0 < r \<and> r \<le> 1"
proof -
  have "0 < 1 / den \<and> 1 / den \<le> 1" using assms(2) by simp
  with assms(1) have "0 < mp_round mp dps (1 / den) \<and> mp_round mp dps (1 / den) \<le> 1"
    unfolding keeps_bounds_def by blast
  with assms(2) show ?thesis by (simp add: one_over_def)
qed

lemma cf_loop_bounds:
  assumes "keeps_bounds mp"
  shows "\<forall>t\<in>set items. 1 \<le> t \<Longrightarrow> 0 \<le> val_of cur \<Longrightarrow> val_of cur \<le> 1 \<Longrightarrow>
    (\<exists>v. cf_loop mp dps items cur = Inr v \<and> (items \<noteq> [] \<longrightarrow> 0 < val_of v \<and> val_of v \<le> 1))
    \<and> (\<forall>(c, den)\<in>set (cf_trace mp dps items cur). 0 \<le> c \<and> c \<le> 1 \<and> 1 \<le> den)
    \<and> length (cf_trace mp dps items cur) = length items"
proof (induction items arbitrary: cur)
  case Nil
  then show ?case by simp
next
  case (Cons item items)
  let ?den = "mpf mp dps (py_add mp dps item cur)"
  have den: "1 \<le> ?den"
    using assms Cons.prems by (intro denominator_ge_1) simp_all
  from one_over_bounds [OF assms den, of dps] obtain r where
    r: "one_over mp dps ?den = Inr (Mpf r)" "0 < r" "r \<le> 1" by blast
  from Cons.IH [of "Mpf r"] Cons.prems r
  have IH: "(\<exists>v. cf_loop mp dps items (Mpf r) = Inr v \<and> (items \<noteq> [] \<longrightarrow> 0 < val_of v \<and> val_of v \<le> 1))"
    "(\<forall>(c, den)\<in>set (cf_trace mp dps items (Mpf r)). 0 \<le> c \<and> c \<le> 1 \<and> 1 \<le> den)"
    "length (cf_trace mp dps items (Mpf r)) = length items"
    by simp_all
  have "\<exists>v. cf_loop mp dps (item # items) cur = Inr v \<and> 0 < val_of v \<and> val_of v \<le> 1"
  proof (cases "items = []")
    case True
    with r show ?thesis by simp
  next
    case False
    with IH(1) r(1) show ?thesis by simp
  qed
  moreover have "\<forall>(c, den)\<in>set (cf_trace mp dps (item # items) cur). 0 \<le> c \<and> c \<le> 1 \<and> 1 \<le> den"
    using IH(2) r(1) den Cons.prems by (simp add: Let_def)
  moreover have "length (cf_trace mp dps (item # items) cur) = length (item # items)"
    using IH(3) r(1) by (simp add: Let_def)
  ultimately show ?case by simp
qed

lemma keeps_bounds_exact: "keeps_bounds exact_provider"
  by (simp add: keeps_bounds_def exact_provider_def)

text \<open>
  Claim C9. On a sequence whose terms are all at least 1 the evaluator never divides by
  zero: before each division the running value lies in \<open>[0, 1]\<close> and the divisor is at
  least 1, so the evaluator returns a value, and for a non-empty sequence that value lies
  in \<open>(0, 1]\<close>. This holds for exact arithmetic and for every rounding that keeps the
  bounds \<open>keeps_bounds\<close> names.
\<close>

theorem cf_to_real_never_divides_by_zero:
  assumes "keeps_bounds mp" and "\<forall>t\<in>set S. 1 \<le> t"
  shows "(\<exists>v. cf_to_real mp dps S P = Inr v \<and> (S \<noteq> [] \<longrightarrow> 0 < val_of v \<and> val_of v \<le> 1))
    \<and> (\<forall>(c, den)\<in>set (cf_trace mp (extradps (P + 1) dps) (rev S) (PyInt 0)).
          0 \<le> c \<and> c \<le> 1 \<and> 1 \<le> den)
    \<and> length (cf_trace mp (extradps (P + 1) dps) (rev S) (PyInt 0)) = length S"
  using cf_loop_bounds [OF assms(1), of "rev S" "PyInt 0" "extradps (P + 1) dps"] assms(2)
  by (simp add: cf_to_real_def)

theorem cf_to_real_never_divides_by_zero_witness:
  "(\<exists>v. cf_to_real exact_provider default_dps [3, 29, 5, 7] 7 = Inr v
        \<and> 0 < val_of v \<and> val_of v \<le> 1)
   \<and> cf_to_real exact_provider default_dps [3, 29, 5, 7] 7 = Inr (Mpf (1051 / 3189))
   \<and> length (cf_trace exact_provider (extradps (7 + 1) default_dps) (rev [3, 29, 5, 7]) (PyInt 0)) = 4"
proof -
  have ge: "\<forall>t\<in>set [3, 29, 5, 7 :: int]. 1 \<le> t" by simp
  show ?thesis
    using cf_to_real_never_divides_by_zero [OF keeps_bounds_exact ge, of default_dps 7]
      cf_to_real_example
    by simp
qed

section \<open>Properties of the Validity Predicate\<close>

lemma take_eq_iff_prefix: "length ys = n \<Longrightarrow> (take n xs = ys) = prefix ys xs"
  by (metis append_eq_conv_conj prefix_def take_is_prefix)

lemma valid_trott_unfold:
  "valid_trott mp dps S =
     (case cf_to_real mp (dps + (count_digits S + 3)) S (count_digits S + 2) of
        Inl e \<Rightarrow> Inl e
      | Inr v \<Rightarrow> Inr (take (count_digits S + 2) (py_str mp (dps + (count_digits S + 3)) v)
                       = cf_to_trott_approx S))"
proof -
  have e: "extradps (count_digits S + 2 + 1) dps = dps + (count_digits S + 3)"
    by (simp add: extradps_def)
  show ?thesis
    unfolding valid_trott_def Let_def e by (rule refl)
qed

lemma valid_trott_True_iff:
  "valid_trott mp dps S = Inr True \<longleftrightarrow>
     (\<exists>v. cf_to_real mp (dps + (count_digits S + 3)) S (count_digits S + 2) = Inr v \<and>
          take (count_digits S + 2) (py_str mp (dps + (count_digits S + 3)) v)
            = cf_to_trott_approx S)"
  unfolding valid_trott_unfold by (auto split: sum.splits)

lemma count_digits_example_3: "count_digits [3] = 1"
  by code_simp

lemma count_digits_example_3_29: "count_digits [3, 29] = 3"
  by code_simp

text \<open>
  Claim C2. For a sequence \<open>S\<close> of positive integers with total digit count \<open>d\<close>, the
  predicate returns true exactly when the evaluator returns a value at precision \<open>d + 2\<close>
  and the first \<open>d + 2\<close> characters of the rendering of that value are \<open>0.\<close> followed by
  the decimal digit strings of the terms of \<open>S\<close> in order. The evaluator runs, and the
  value is rendered, under the working precision the predicate's block has raised by
  \<open>d + 3\<close>.
\<close>

theorem valid_trott_truncated_rendering:
  assumes "\<forall>t\<in>set S. 0 < t" and "d = sum_list (map (\<lambda>t. length (str_int t)) S)"
  shows "valid_trott mp dps S = Inr True \<longleftrightarrow>
     (\<exists>v. cf_to_real mp (dps + (d + 3)) S (d + 2) = Inr v \<and>
          take (d + 2) (py_str mp (dps + (d + 3)) v) = ''0.'' @ concat (map str_int S))"
proof -
  have "count_digits S = d"
    using assms by (simp add: count_digits_pos)
  then show ?thesis
    unfolding valid_trott_True_iff by (simp add: cf_to_trott_approx_def)
qed

theorem valid_trott_truncated_rendering_witness:
  "valid_trott exact_provider default_dps [3] = Inr True
   \<and> cf_to_real exact_provider (default_dps + (1 + 3)) [3] (1 + 2) = Inr (Mpf (1 / 3))
   \<and> py_str exact_provider (default_dps + (1 + 3)) (Mpf (1 / 3)) = ''0.3333333333333333333''"
proof -
  have pos: "\<forall>t\<in>set [3 :: int]. 0 < t" by simp
  have d: "(1::nat) = sum_list (map (\<lambda>t. length (str_int t)) [3])" by code_simp
  have ev: "cf_to_real exact_provider (default_dps + (1 + 3)) [3] (1 + 2) = Inr (Mpf (1 / 3))"
    by code_simp
  have rd: "py_str exact_provider (default_dps + (1 + 3)) (Mpf (1 / 3)) = ''0.3333333333333333333''"
    by code_simp
  have tk: "take (1 + 2) (py_str exact_provider (default_dps + (1 + 3)) (Mpf (1 / 3)))
      = ''0.'' @ concat (map str_int [3])"
    by code_simp
  have "valid_trott exact_provider default_dps [3] = Inr True"
    using valid_trott_truncated_rendering [OF pos d, of exact_provider default_dps] ev tk
    by blast
  then show ?thesis using ev rd by blast
qed

lemma trailing_zero_invalid: "valid_trott exact_provider default_dps [10] = Inr False"
  by code_simp

lemma trailing_zero_value:
  "cf_to_real exact_provider (default_dps + (count_digits [10] + 3)) [10] (count_digits [10] + 2)
     = Inr (Mpf (1 / 10))"
  by code_simp

lemma trailing_zero_rendering:
  "py_str exact_provider (default_dps + (count_digits [10] + 3)) (Mpf (1 / 10)) = ''0.1''"
  by code_simp

lemma trailing_zero_expansion:
  "prefix (cf_to_trott_approx [10]) (decimal_expansion 40 (1 / 10))"
  by code_simp

lemma rounded_up_invalid:
  "valid_trott exact_provider default_dps [3, 33333333333333333329] = Inr False"
  by code_simp

lemma rounded_up_value:
  "cf_to_real exact_provider (default_dps + (count_digits [3, 33333333333333333329] + 3))
     [3, 33333333333333333329] (count_digits [3, 33333333333333333329] + 2)
     = Inr (Mpf (33333333333333333329 / 99999999999999999988))"
  by code_simp

lemma rounded_up_rendering:
  "py_str exact_provider (default_dps + (count_digits [3, 33333333333333333329] + 3))
     (Mpf (33333333333333333329 / 99999999999999999988)) = ''0.33333333333333333333''"
  by code_simp

lemma rounded_up_expansion:
  "prefix (cf_to_trott_approx [3, 33333333333333333329])
     (decimal_expansion 40 (33333333333333333329 / 99999999999999999988))"
  by code_simp

lemma rounded_up_expansion_digits:
  "decimal_expansion 40 (33333333333333333329 / 99999999999999999988)
     = ''0.3333333333333333333299999999999999999995''"
  by code_simp

text \<open>
  Claim C4, as stated, fails: being a prefix of the full decimal expansion of the
  evaluator's value does not make a sequence valid. The value of \<open>[10]\<close> is \<open>1/10\<close>, whose
  expansion \<open>0.1000...\<close> begins with the target \<open>0.10\<close>, but it is rendered \<open>0.1\<close> and the
  predicate returns false. The value of \<open>[3, 33333333333333333329]\<close> has the expansion
  \<open>0.33333333333333333332999...\<close>, which begins with the target, but its rendering is
  rounded up to \<open>0.33333333333333333333\<close> and the predicate returns false.
\<close>

theorem expansion_prefix_counterexample:
  "valid_trott exact_provider default_dps [10] = Inr False
   \<and> cf_to_real exact_provider (default_dps + (count_digits [10] + 3)) [10]
         (count_digits [10] + 2) = Inr (Mpf (1 / 10))
   \<and> prefix (cf_to_trott_approx [10]) (decimal_expansion 40 (1 / 10))
   \<and> py_str exact_provider (default_dps + (count_digits [10] + 3)) (Mpf (1 / 10)) = ''0.1''
   \<and> valid_trott exact_provider default_dps [3, 33333333333333333329] = Inr False
   \<and> cf_to_real exact_provider (default_dps + (count_digits [3, 33333333333333333329] + 3))
         [3, 33333333333333333329] (count_digits [3, 33333333333333333329] + 2)
         = Inr (Mpf (33333333333333333329 / 99999999999999999988))
   \<and> prefix (cf_to_trott_approx [3, 33333333333333333329])
         (decimal_expansion 40 (33333333333333333329 / 99999999999999999988))
   \<and> py_str exact_provider (default_dps + (count_digits [3, 33333333333333333329] + 3))
         (Mpf (33333333333333333329 / 99999999999999999988)) = ''0.33333333333333333333''"
  by (intro conjI trailing_zero_invalid trailing_zero_value trailing_zero_expansion
      trailing_zero_rendering rounded_up_invalid rounded_up_value rounded_up_expansion
      rounded_up_rendering)

text \<open>
  Claim C4, amended. For a sequence of positive integers the predicate returns true
  exactly when the Target Decimal String is a prefix of the string the library renders for
  the value the evaluator computes at the guard precision, that is of \<open>str\<close> of the value
  under the working precision of the predicate's block. It asks for no numeric equality:
  \<open>[3, 29]\<close> is valid, its value is \<open>29/88\<close>, not \<open>329/1000\<close>.
\<close>

theorem valid_trott_prefix_of_rendering:
  assumes "\<forall>t\<in>set S. 0 < t"
  shows "valid_trott mp dps S = Inr True \<longleftrightarrow>
     (\<exists>v. cf_to_real mp (dps + (count_digits S + 3)) S (count_digits S + 2) = Inr v \<and>
          prefix (cf_to_trott_approx S) (py_str mp (dps + (count_digits S + 3)) v))"
proof -
  have "count_digits S = sum_list (map (\<lambda>t. length (str_int t)) S)"
    using assms by (simp add: count_digits_pos)
  then have "length (cf_to_trott_approx S) = count_digits S + 2"
    by (simp add: length_target)
  then show ?thesis
    unfolding valid_trott_True_iff by (simp add: take_eq_iff_prefix)
qed

theorem valid_trott_prefix_of_rendering_witness:
  "valid_trott exact_provider default_dps [3, 29] = Inr True
   \<and> cf_to_real exact_provider (default_dps + (count_digits [3, 29] + 3)) [3, 29]
         (count_digits [3, 29] + 2) = Inr (Mpf (29 / 88))
   \<and> py_str exact_provider (default_dps + (count_digits [3, 29] + 3)) (Mpf (29 / 88))
         = ''0.329545454545454545455''
   \<and> cf_to_trott_approx [3, 29] = ''0.329''
   \<and> (29 / 88 :: rat) \<noteq> 329 / 1000"
proof -
  have pos: "\<forall>t\<in>set [3, 29 :: int]. 0 < t" by simp
  have ev: "cf_to_real exact_provider (default_dps + (count_digits [3, 29] + 3)) [3, 29]
         (count_digits [3, 29] + 2) = Inr (Mpf (29 / 88))"
    by code_simp
  have rd: "py_str exact_provider (default_dps + (count_digits [3, 29] + 3)) (Mpf (29 / 88))
         = ''0.329545454545454545455''"
    by code_simp
  have tgt: "cf_to_trott_approx [3, 29] = ''0.329''" by code_simp
  have "prefix ''0.329'' ''0.329545454545454545455''" by simp
  with rd tgt have pre: "prefix (cf_to_trott_approx [3, 29])
      (py_str exact_provider (default_dps + (count_digits [3, 29] + 3)) (Mpf (29 / 88)))"
    by simp
  have ne: "(29 / 88 :: rat) \<noteq> 329 / 1000" by simp
  have "valid_trott exact_provider default_dps [3, 29] = Inr True"
    using valid_trott_prefix_of_rendering [OF pos, of exact_provider default_dps] ev pre
    by blast
  then show ?thesis using ev rd tgt ne by blast
qed

lemma scenario_1: "valid_trott exact_provider default_dps [3, 29, 5, 7] = Inr True"
  by code_simp

lemma scenario_2: "valid_trott exact_provider default_dps [3, 29, 5, 8] = Inr False"
  by code_simp

lemma scenario_3: "valid_trott exact_provider default_dps [3] = Inr True"
  by code_simp

lemma scenario_4: "valid_trott exact_provider default_dps [3, 30] = Inr False"
  by code_simp

lemma scenario_5: "valid_trott exact_provider default_dps [3, 29] = Inr True"
  by code_simp

lemma scenario_6: "valid_trott exact_provider default_dps [3, 333329] = Inr True"
  by code_simp

lemma scenario_7: "valid_trott exact_provider default_dps [3, 3333329] = Inr True"
  by code_simp

lemma scenario_8: "valid_trott exact_provider default_dps [3, 33333329] = Inr True"
  by code_simp

text \<open>
  Claim C5. The predicate returns true on \<open>[3,29,5,7]\<close>, false on \<open>[3,29,5,8]\<close>, true on
  \<open>[3]\<close>, false on \<open>[3,30]\<close>, and true on \<open>[3,29]\<close>, \<open>[3,333329]\<close>, \<open>[3,3333329]\<close> and
  \<open>[3,33333329]\<close>, with the reference provider at the default working precision.
\<close>

theorem valid_trott_scenarios:
  "valid_trott exact_provider default_dps [3, 29, 5, 7] = Inr True
   \<and> valid_trott exact_provider default_dps [3, 29, 5, 8] = Inr False
   \<and> valid_trott exact_provider default_dps [3] = Inr True
   \<and> valid_trott exact_provider default_dps [3, 30] = Inr False
   \<and> valid_trott exact_provider default_dps [3, 29] = Inr True
   \<and> valid_trott exact_provider default_dps [3, 333329] = Inr True
   \<and> valid_trott exact_provider default_dps [3, 3333329] = Inr True
   \<and> valid_trott exact_provider default_dps [3, 33333329] = Inr True"
  using scenario_1 scenario_2 scenario_3 scenario_4 scenario_5 scenario_6 scenario_7 scenario_8
  by simp

lemma scenario_negative: "valid_trott exact_provider default_dps [- 5] = Inr False"
  by code_simp

lemma scenario_zero: "valid_trott exact_provider default_dps [0] = Inl ZeroDivisionError"
  by code_simp

lemma count_digits_nonpositive: "count_digits [0, - 5] = 0"
  by code_simp

text \<open>
  Claim C6, as stated, fails: the Digit Counter has no error to raise. On \<open>[0, -5]\<close> it
  returns 0, and the predicate on \<open>[-5]\<close> returns false.
\<close>

theorem malformed_term_counterexample:
  "count_digits [0, - 5] = 0 \<and> valid_trott exact_provider default_dps [- 5] = Inr False"
  using count_digits_nonpositive scenario_negative by simp

text \<open>
  Claim C6, amended. When an element of the input is zero or negative, the Digit Counter
  raises nothing: it returns the digit count of the positive elements alone. The
  predicate then never returns true: the target string is longer than the compared
  prefix, so the result is false, unless the evaluator's division by zero ends the call.
\<close>

theorem nonpositive_term_never_valid:
  "(\<exists>t\<in>set S. t \<le> 0) \<longrightarrow>
     count_digits S = count_digits (filter (\<lambda>t. 0 < t) S) \<and>
     valid_trott mp dps S \<noteq> Inr True"
proof
  assume bad: "\<exists>t\<in>set S. t \<le> 0"
  have "count_digits S = count_digits (filter (\<lambda>t. 0 < t) S)"
    unfolding count_digits_general by (induction S) simp_all
  moreover have "valid_trott mp dps S \<noteq> Inr True"
  proof
    assume "valid_trott mp dps S = Inr True"
    then obtain v where
      "take (count_digits S + 2) (py_str mp (dps + (count_digits S + 3)) v) = cf_to_trott_approx S"
      unfolding valid_trott_True_iff by blast
    then have "length (cf_to_trott_approx S) \<le> count_digits S + 2"
      by (metis length_take min.cobounded2)
    with count_digits_less [OF bad] show False
      by (simp add: length_target)
  qed
  ultimately show "count_digits S = count_digits (filter (\<lambda>t. 0 < t) S) \<and>
     valid_trott mp dps S \<noteq> Inr True" by simp
qed

theorem nonpositive_term_never_valid_witness:
  "count_digits [- 5] = 0 \<and> valid_trott exact_provider default_dps [- 5] \<noteq> Inr True"
proof -
  have bad: "\<exists>t\<in>set [- 5 :: int]. t \<le> 0" by simp
  have "count_digits (filter (\<lambda>t. 0 < t) [- 5]) = 0" by (simp add: count_digits_def)
  then show ?thesis
    using nonpositive_term_never_valid [of "[- 5]" exact_provider default_dps] bad by simp
qed

section \<open>Properties of the Backtracking Search Engine\<close>

lemma collect_valid_children:
  "collect_valid mp dps cf as acc = Inr valid \<Longrightarrow>
   set valid \<subseteq> set acc \<union> {cf @ [a] | a. a \<in> set as \<and> valid_trott mp dps (cf @ [a]) = Inr True}"
proof (induction as arbitrary: acc)
  case Nil
  then show ?case by simp
next
  case (Cons a as)
  from Cons.prems obtain ok where ok: "valid_trott mp dps (cf @ [a]) = Inr ok"
    and rest: "collect_valid mp dps cf as (if ok then acc @ [cf @ [a]] else acc) = Inr valid"
    by (auto simp: Let_def split: sum.splits)
  from Cons.IH [OF rest] ok show ?case
    by (auto split: if_splits)
qed

lemma for_valid_Cons_fst:
  "fst (for_valid mp dps (v # vs) c m sz) =
     v # fst (trott_backtracking mp dps v (c + 1) m sz) @
       (if snd (trott_backtracking mp dps v (c + 1) m sz) = None
        then fst (for_valid mp dps vs c m sz) else [])"
  by (simp split: prod.splits option.splits)

lemma trott_backtracking_fst:
  "fst (trott_backtracking mp dps cf c m sz) =
     (if c < m then
        (case collect_valid mp dps cf [1..sz - 1] [] of
           Inl e \<Rightarrow> []
         | Inr valid \<Rightarrow> fst (for_valid mp dps valid c m sz))
      else [])"
  by (simp add: trott_backtracking.simps split: sum.splits)

lemma extends_ok_child:
  assumes "c < m" "1 \<le> a" "a \<le> sz - 1" "valid_trott mp dps (cf @ [a]) = Inr True"
  shows "extends_ok mp dps cf c m sz (cf @ [a])"
  unfolding extends_ok_def using assms by (intro exI [of _ "[a]"]) simp

lemma extends_ok_step:
  assumes "extends_ok mp dps (cf @ [a]) (c + 1) m sz s" "1 \<le> a" "a \<le> sz - 1"
  shows "extends_ok mp dps cf c m sz s"
proof -
  from assms(1) obtain ext where ext: "s = (cf @ [a]) @ ext" "ext \<noteq> []"
    "int (length ext) \<le> m - (c + 1)" "\<forall>t\<in>set ext. 1 \<le> t \<and> t \<le> sz - 1"
    "valid_trott mp dps s = Inr True"
    unfolding extends_ok_def by blast
  show ?thesis
    unfolding extends_ok_def using ext assms(2,3)
    by (intro exI [of _ "a # ext"]) simp
qed

lemma search_sound:
  shows "\<forall>s\<in>set (fst (trott_backtracking mp dps cf c m sz)). extends_ok mp dps cf c m sz s"
    and "\<forall>cf. c < m \<and> (\<forall>v\<in>set vs. \<exists>a. v = cf @ [a] \<and> 1 \<le> a \<and> a \<le> sz - 1 \<and>
              valid_trott mp dps v = Inr True) \<longrightarrow>
           (\<forall>s\<in>set (fst (for_valid mp dps vs c m sz)). extends_ok mp dps cf c m sz s)"
proof (induction mp dps cf c m sz and mp dps vs c m sz rule: trott_backtracking_for_valid.induct)
  case (1 mp dps current_cf count max_items max_size)
  show ?case
  proof (cases "count < max_items")
    case False
    then show ?thesis by (simp add: trott_backtracking_fst)
  next
    case True
    show ?thesis
    proof (cases "collect_valid mp dps current_cf [1..max_size - 1] []")
      case (Inl e)
      with True show ?thesis by (simp add: trott_backtracking_fst)
    next
      case (Inr valid)
      from collect_valid_children [OF Inr]
      have ch: "\<forall>v\<in>set valid. \<exists>a. v = current_cf @ [a] \<and> 1 \<le> a \<and> a \<le> max_size - 1 \<and>
              valid_trott mp dps v = Inr True"
        by auto
      from "1.IH" [OF True Inr] True ch
      have "\<forall>s\<in>set (fst (for_valid mp dps valid count max_items max_size)).
              extends_ok mp dps current_cf count max_items max_size s"
        by blast
      with True Inr show ?thesis by (simp add: trott_backtracking_fst)
    qed
  qed
next
  case (2 mp dps count max_items max_size)
  show ?case by simp
next
  case (3 mp dps v vs count max_items max_size)
  show ?case
  proof (intro allI impI ballI)
    fix cf s
    assume pre: "count < max_items \<and> (\<forall>v\<in>set (v # vs). \<exists>a. v = cf @ [a] \<and> 1 \<le> a \<and>
        a \<le> max_size - 1 \<and> valid_trott mp dps v = Inr True)"
      and s: "s \<in> set (fst (for_valid mp dps (v # vs) count max_items max_size))"
    from pre obtain a where a: "v = cf @ [a]" "1 \<le> a" "a \<le> max_size - 1"
      "valid_trott mp dps v = Inr True" by auto
    let ?r = "trott_backtracking mp dps v (count + 1) max_items max_size"
    from s consider "s = v" | "s \<in> set (fst ?r)"
      | "snd ?r = None" "s \<in> set (fst (for_valid mp dps vs count max_items max_size))"
      unfolding for_valid_Cons_fst by (auto split: if_splits)
    then show "extends_ok mp dps cf count max_items max_size s"
    proof cases
      case 1
      with a pre show ?thesis by (simp add: extends_ok_child)
    next
      case 2
      with "3.IH"(1) have "extends_ok mp dps (cf @ [a]) (count + 1) max_items max_size s"
        using a(1) by simp
      then show ?thesis using a(2,3) by (rule extends_ok_step)
    next
      case 3
      have "(fst ?r, snd ?r) = ?r" by simp
      from "3.IH"(2) [OF this 3(1)] pre 3(2) show ?thesis by simp
    qed
  qed
qed

lemma extends_ok_strict: "extends_ok mp dps cf c m sz s \<Longrightarrow> strict_prefix cf s"
  unfolding extends_ok_def by (auto simp: strict_prefix_def)

lemma reported_earlier_mono:
  "reported_earlier cf seen xs \<Longrightarrow> seen \<subseteq> seen' \<Longrightarrow> reported_earlier cf seen' xs"
proof (induction xs arbitrary: seen seen')
  case Nil
  then show ?case by simp
next
  case (Cons s xs)
  from Cons.prems have "reported_earlier cf (insert s seen) xs" by simp
  from Cons.IH [OF this, of "insert s seen'"] Cons.prems show ?case by auto
qed

lemma reported_earlier_append:
  "reported_earlier cf seen (xs @ ys) \<longleftrightarrow>
     reported_earlier cf seen xs \<and> reported_earlier cf (seen \<union> set xs) ys"
  by (induction xs arbitrary: seen) (simp_all add: Un_insert_left insert_commute conj_assoc)

lemma strict_prefix_between:
  assumes "strict_prefix cf p" "strict_prefix p s" "strict_prefix (cf @ [a]) s"
  shows "p = cf @ [a] \<or> strict_prefix (cf @ [a]) p"
proof -
  from assms(2,3) have "prefix p (cf @ [a]) \<or> prefix (cf @ [a]) p"
    by (meson prefix_same_cases strict_prefix_def)
  then show ?thesis
  proof
    assume "prefix p (cf @ [a])"
    then have "p = cf @ [a] \<or> prefix p cf" by simp
    with assms(1) show ?thesis
      by (auto simp: strict_prefix_def dest: prefix_order.antisym)
  next
    assume "prefix (cf @ [a]) p"
    then show ?thesis by (auto simp: strict_prefix_def)
  qed
qed

lemma reported_earlier_lift:
  assumes "reported_earlier (cf @ [a]) seen xs" "cf @ [a] \<in> seen"
    "\<forall>s\<in>set xs. strict_prefix (cf @ [a]) s"
  shows "reported_earlier cf seen xs"
  using assms
proof (induction xs arbitrary: seen)
  case Nil
  then show ?case by simp
next
  case (Cons s xs)
  have "\<forall>p. strict_prefix cf p \<and> strict_prefix p s \<longrightarrow> p \<in> seen"
  proof (intro allI impI)
    fix p assume p: "strict_prefix cf p \<and> strict_prefix p s"
    from Cons.prems(3) have "strict_prefix (cf @ [a]) s" by simp
    with p have "p = cf @ [a] \<or> strict_prefix (cf @ [a]) p"
      by (intro strict_prefix_between) simp_all
    with Cons.prems(1,2) p show "p \<in> seen" by auto
  qed
  moreover have "reported_earlier cf (insert s seen) xs"
    using Cons.prems by (intro Cons.IH) simp_all
  ultimately show ?case by simp
qed

lemma search_ordered:
  shows "\<forall>seen. reported_earlier cf seen (fst (trott_backtracking mp dps cf c m sz))"
    and "\<forall>cf seen. (\<forall>v\<in>set vs. \<exists>a. v = cf @ [a]) \<longrightarrow>
           reported_earlier cf seen (fst (for_valid mp dps vs c m sz))"
proof (induction mp dps cf c m sz and mp dps vs c m sz rule: trott_backtracking_for_valid.induct)
  case (1 mp dps current_cf count max_items max_size)
  show ?case
  proof (cases "count < max_items")
    case False
    then show ?thesis by (simp add: trott_backtracking_fst)
  next
    case True
    show ?thesis
    proof (cases "collect_valid mp dps current_cf [1..max_size - 1] []")
      case (Inl e)
      with True show ?thesis by (simp add: trott_backtracking_fst)
    next
      case (Inr valid)
      from collect_valid_children [OF Inr]
      have ch: "\<forall>v\<in>set valid. \<exists>a. v = current_cf @ [a]" by auto
      from "1.IH" [OF True Inr] ch
      have "\<forall>seen. reported_earlier current_cf seen
              (fst (for_valid mp dps valid count max_items max_size))"
        by blast
      with True Inr show ?thesis by (simp add: trott_backtracking_fst)
    qed
  qed
next
  case (2 mp dps count max_items max_size)
  show ?case by simp
next
  case (3 mp dps v vs count max_items max_size)
  show ?case
  proof (intro allI impI)
    fix cf seen
    assume pre: "\<forall>v\<in>set (v # vs). \<exists>a. v = cf @ [a]"
    then obtain a where a: "v = cf @ [a]" by auto
    let ?r = "trott_backtracking mp dps v (count + 1) max_items max_size"
    let ?rest = "if snd ?r = None then fst (for_valid mp dps vs count max_items max_size) else []"
    have first: "\<forall>p. strict_prefix cf p \<and> strict_prefix p v \<longrightarrow> p \<in> seen"
      unfolding a by (auto simp: strict_prefix_def dest: prefix_order.antisym)
    have strict: "\<forall>s\<in>set (fst ?r). strict_prefix (cf @ [a]) s"
      using search_sound(1) [of mp dps v "count + 1" max_items max_size] a
      by (auto dest: extends_ok_strict)
    have "reported_earlier (cf @ [a]) (insert v seen) (fst ?r)"
      using "3.IH"(1) a by simp
    then have mid: "reported_earlier cf (insert v seen) (fst ?r)"
      using a strict by (intro reported_earlier_lift [of cf a]) simp_all
    have last: "reported_earlier cf (insert v seen \<union> set (fst ?r)) ?rest"
    proof (cases "snd ?r = None")
      case True
      have "(fst ?r, snd ?r) = ?r" by simp
      from "3.IH"(2) [OF this True] pre True show ?thesis by simp
    next
      case False
      then show ?thesis by (simp del: not_None_eq)
    qed
    show "reported_earlier cf seen (fst (for_valid mp dps (v # vs) count max_items max_size))"
      unfolding for_valid_Cons_fst using first mid last
      by (simp add: reported_earlier_append)
  qed
qed

lemma reported_earlier_nth:
  "reported_earlier cf seen xs \<Longrightarrow> i < length xs \<Longrightarrow>
   strict_prefix cf p \<Longrightarrow> strict_prefix p (xs ! i) \<Longrightarrow> p \<in> seen \<or> (\<exists>j<i. xs ! j = p)"
proof (induction xs arbitrary: seen i)
  case Nil
  then show ?case by simp
next
  case (Cons s xs)
  show ?case
  proof (cases i)
    case 0
    with Cons.prems show ?thesis by auto
  next
    case (Suc k)
    with Cons.prems have "reported_earlier cf (insert s seen) xs" "k < length xs"
      "strict_prefix p (xs ! k)" by simp_all
    from Cons.IH [OF this(1,2) Cons.prems(3) this(3)]
    have "p \<in> insert s seen \<or> (\<exists>j<k. xs ! j = p)" .
    then show ?thesis
    proof (elim disjE exE conjE)
      assume "p \<in> insert s seen"
      then show ?thesis using Suc by (cases "p = s") (auto intro: exI [of _ 0])
    next
      fix j assume "j < k" "xs ! j = p"
      then have "Suc j < i \<and> (s # xs) ! Suc j = p" using Suc by simp
      then show ?thesis by blast
    qed
  qed
qed

lemma first_level_example:
  "collect_valid exact_provider default_dps [] [1..30 - 1] [] = Inr [[3]]"
  by code_simp

lemma second_level_example:
  "collect_valid exact_provider default_dps [3] [1..30 - 1] [] = Inr [[3, 29]]"
  by code_simp

lemma search_example:
  "trott_backtracking exact_provider default_dps [] 0 2 30 = ([[3], [3, 29]], None)"
proof -
  have leaf: "trott_backtracking exact_provider default_dps [3, 29] 2 2 30 = ([], None)"
    by (subst trott_backtracking.simps) simp
  have mid: "trott_backtracking exact_provider default_dps [3] 1 2 30 = ([[3, 29]], None)"
    by (subst trott_backtracking.simps)
       (simp only: second_level_example sum.case, simp add: leaf)
  show ?thesis
    by (subst trott_backtracking.simps)
       (simp only: first_level_example sum.case, simp add: mid)
qed

text \<open>
  Claim C1. Started from the empty sequence at depth 0, for every \<open>max_depth\<close> and
  \<open>max_term\<close> and whether or not the call ends in an exception, every sequence the search
  reports passes the predicate when checked on its own, and every proper non-empty prefix
  of a reported sequence was reported earlier.
\<close>

theorem search_reports_valid_and_prefix_closed:
  assumes "trott_backtracking mp dps [] 0 max_depth max_term = (reported, err)"
  shows "(\<forall>s\<in>set reported. valid_trott mp dps s = Inr True) \<and>
         (\<forall>i<length reported. \<forall>p. p \<noteq> [] \<and> strict_prefix p (reported ! i) \<longrightarrow>
            (\<exists>j<i. reported ! j = p))"
proof -
  have r: "reported = fst (trott_backtracking mp dps [] 0 max_depth max_term)"
    using assms by simp
  have "\<forall>s\<in>set reported. valid_trott mp dps s = Inr True"
    unfolding r using search_sound(1) [of mp dps "[]" 0 max_depth max_term]
    by (auto simp: extends_ok_def)
  moreover have "\<forall>i<length reported. \<forall>p. p \<noteq> [] \<and> strict_prefix p (reported ! i) \<longrightarrow>
            (\<exists>j<i. reported ! j = p)"
  proof (intro allI impI)
    fix i p assume i: "i < length reported" and p: "p \<noteq> [] \<and> strict_prefix p (reported ! i)"
    have "reported_earlier [] {} reported"
      unfolding r using search_ordered(1) by blast
    from reported_earlier_nth [OF this i, of p] p show "\<exists>j<i. reported ! j = p"
      by (cases p) auto
  qed
  ultimately show ?thesis by blast
qed

theorem search_reports_valid_and_prefix_closed_witness:
  "valid_trott exact_provider default_dps [3] = Inr True
   \<and> valid_trott exact_provider default_dps [3, 29] = Inr True
   \<and> (\<exists>j<1. [[3], [3, 29 :: int]] ! j = [3])"
proof -
  let ?r = "[[3], [3, 29 :: int]]"
  note t = search_reports_valid_and_prefix_closed [OF search_example]
  have "\<forall>s\<in>set ?r. valid_trott exact_provider default_dps s = Inr True"
    by (rule t [THEN conjunct1])
  then have v: "valid_trott exact_provider default_dps [3] = Inr True"
    "valid_trott exact_provider default_dps [3, 29] = Inr True"
    by simp_all
  have "\<forall>i<length ?r. \<forall>p. p \<noteq> [] \<and> strict_prefix p (?r ! i) \<longrightarrow> (\<exists>j<i. ?r ! j = p)"
    by (rule t [THEN conjunct2])
  then have "\<forall>p. p \<noteq> [] \<and> strict_prefix p (?r ! 1) \<longrightarrow> (\<exists>j<1. ?r ! j = p)"
    by (drule_tac x = 1 in spec) simp
  then have "[3 :: int] \<noteq> [] \<and> strict_prefix [3] (?r ! 1) \<longrightarrow> (\<exists>j<1. ?r ! j = [3])"
    by (rule spec)
  then have "\<exists>j<1. ?r ! j = [3]" by simp
  with v show ?thesis by blast
qed

text \<open>
  Claim C8. Started from the empty sequence at depth 0, every reported sequence has at
  least one and at most \<open>max_depth\<close> terms, and each of its terms lies between 1 and
  \<open>max_term - 1\<close>.
\<close>

theorem search_reports_within_bounds:
  assumes "trott_backtracking mp dps [] 0 max_depth max_term = (reported, err)"
  shows "\<forall>s\<in>set reported. 1 \<le> length s \<and> int (length s) \<le> max_depth \<and>
            (\<forall>t\<in>set s. 1 \<le> t \<and> t \<le> max_term - 1)"
proof
  fix s assume "s \<in> set reported"
  then have "s \<in> set (fst (trott_backtracking mp dps [] 0 max_depth max_term))"
    using assms by simp
  with search_sound(1) [of mp dps "[]" 0 max_depth max_term]
  have "extends_ok mp dps [] 0 max_depth max_term s" by blast
  then show "1 \<le> length s \<and> int (length s) \<le> max_depth \<and>
            (\<forall>t\<in>set s. 1 \<le> t \<and> t \<le> max_term - 1)"
    unfolding extends_ok_def by (auto simp: Suc_le_eq)
qed

theorem search_reports_within_bounds_witness:
  "trott_backtracking exact_provider default_dps [] 0 2 30 = ([[3], [3, 29]], None)
   \<and> 1 \<le> length [3, 29 :: int] \<and> int (length [3, 29 :: int]) \<le> 2
   \<and> (1 :: int) \<le> 29 \<and> (29 :: int) \<le> 30 - 1"
proof -
  from search_reports_within_bounds [OF search_example]
  have "\<forall>s\<in>set [[3], [3, 29 :: int]]. 1 \<le> length s \<and> int (length s) \<le> 2 \<and>
      (\<forall>t\<in>set s. 1 \<le> t \<and> t \<le> 30 - 1)" .
  then have "1 \<le> length [3, 29 :: int] \<and> int (length [3, 29 :: int]) \<le> 2 \<and>
      (\<forall>t\<in>set [3, 29 :: int]. 1 \<le> t \<and> t \<le> 30 - 1)"
    by simp
  then show ?thesis using search_example by simp
qed

text \<open>
  Claim C10. The search terminates for every starting sequence, depth counter,
  \<open>max_items\<close> and \<open>max_size\<close>: every argument is in the accessible part of the relation
  of recursive calls. A call at or beyond \<open>max_items\<close> returns at once without reporting,
  and below \<open>max_items\<close> the recursive call at \<open>count + 1\<close>, with \<open>max_items\<close> unchanged, has
  a strictly smaller measure, which is an affine function of \<open>max_items - count\<close>.
\<close>

theorem trott_backtracking_terminates:
  "trott_backtracking_for_valid_dom (Inl (mp, dps, current_cf, count, max_items, max_size))
   \<and> (\<not> count < max_items \<longrightarrow>
        trott_backtracking mp dps current_cf count max_items max_size = ([], None))
   \<and> (count < max_items \<longrightarrow>
        call_measure (Inl (mp, dps, v, count + 1, max_items, max_size))
          < call_measure (Inl (mp, dps, current_cf, count, max_items, max_size)))
   \<and> call_measure (Inl (mp, dps, current_cf, count, max_items, max_size))
        = 2 * nat (max_items - count) + 1"
proof -
  have "trott_backtracking_for_valid_dom (Inl (mp, dps, current_cf, count, max_items, max_size))"
    using search_calls_wellfounded by blast
  moreover have "\<not> count < max_items \<longrightarrow>
        trott_backtracking mp dps current_cf count max_items max_size = ([], None)"
    by (subst trott_backtracking.simps) simp
  moreover have "count < max_items \<longrightarrow>
        call_measure (Inl (mp, dps, v, count + 1, max_items, max_size))
          < call_measure (Inl (mp, dps, current_cf, count, max_items, max_size))"
    by (simp add: call_measure_def)
  moreover have "call_measure (Inl (mp, dps, current_cf, count, max_items, max_size))
        = 2 * nat (max_items - count) + 1"
    by (simp add: call_measure_def)
  ultimately show ?thesis by blast
qed

theorem trott_backtracking_terminates_witness:
  "trott_backtracking exact_provider default_dps [3, 29] 2 2 30 = ([], None)
   \<and> call_measure (Inl (exact_provider, default_dps, [3], 0 + 1, 2, 30))
       < call_measure (Inl (exact_provider, default_dps, [], 0, 2, 30))"
proof -
  have a: "\<not> (2 :: int) < 2" by simp
  have b: "(0 :: int) < 2" by simp
  from trott_backtracking_terminates [of exact_provider default_dps "[3, 29]" 2 2 30] a
  have "trott_backtracking exact_provider default_dps [3, 29] 2 2 30 = ([], None)"
    by blast
  moreover from trott_backtracking_terminates [of exact_provider default_dps "[]" 0 2 30 "[3]"] b
  have "call_measure (Inl (exact_provider, default_dps, [3], 0 + 1, 2, 30))
       < call_measure (Inl (exact_provider, default_dps, [], 0, 2, 30))"
    by blast
  ultimately show ?thesis by blast
qed

end
